theory Spec2Isabelle
  imports Complex_Main "HOL-Library.Sublist"
begin

section \<open>Python values used by the search engine\<close>

text \<open>
  The engine of \<^verbatim>\<open>search_engine.py\<close> keeps its state in Python dictionaries. A Python
  dictionary iterates in insertion order and assigning to a key that is already present
  keeps the key's position, so a dictionary is an association list with that update.
\<close>

type_synonym ('k, 'v) dict = "('k \<times> 'v) list"

text \<open>\<^verbatim>\<open>d.get(k)\<close>: the value stored under a key, if any.\<close>

fun dict_get :: "('k, 'v) dict \<Rightarrow> 'k \<Rightarrow> 'v option" where
  "dict_get [] k = None"
| "dict_get ((k', v) # d) k = (if k' = k then Some v else dict_get d k)"

text \<open>\<^verbatim>\<open>k in d\<close>.\<close>

fun dict_contains :: "('k, 'v) dict \<Rightarrow> 'k \<Rightarrow> bool" where
  "dict_contains [] k = False"
| "dict_contains ((k', v) # d) k = (if k' = k then True else dict_contains d k)"

text \<open>\<^verbatim>\<open>d[k] = v\<close>: replace in place, or append a new key at the end.\<close>

fun dict_set :: "('k, 'v) dict \<Rightarrow> 'k \<Rightarrow> 'v \<Rightarrow> ('k, 'v) dict" where
  "dict_set [] k v = [(k, v)]"
| "dict_set ((k', v') # d) k v =
     (if k' = k then (k', v) # d else (k', v') # dict_set d k v)"

text \<open>\<^verbatim>\<open>list(d)\<close>, the keys in iteration order, and \<^verbatim>\<open>len(d)\<close>.\<close>

definition dict_keys :: "('k, 'v) dict \<Rightarrow> 'k list" where
  "dict_keys d = map fst d"

definition dict_len :: "('k, 'v) dict \<Rightarrow> int" where
  "dict_len d = int (length d)"

text \<open>
  \<^verbatim>\<open>defaultdict(dict).__getitem__\<close>: reading a missing key stores an empty dictionary
  under it and returns that; the read therefore returns the dictionary as well.
\<close>

definition dd_getitem ::
  "('k, ('j, 'v) dict) dict \<Rightarrow> 'k \<Rightarrow> ('j, 'v) dict \<times> ('k, ('j, 'v) dict) dict" where
  "dd_getitem d k =
     (case dict_get d k of
        Some e \<Rightarrow> (e, d)
      | None \<Rightarrow> ([], dict_set d k []))"

text \<open>
  \<^verbatim>\<open>Counter(tokens)\<close>: the number of occurrences of each token, the keys in order of
  first occurrence.
\<close>

definition counter_add :: "'k \<Rightarrow> ('k, int) dict \<Rightarrow> ('k, int) dict" where
  "counter_add k c = dict_set c k (case dict_get c k of None \<Rightarrow> 1 | Some n \<Rightarrow> n + 1)"

definition Counter :: "'k list \<Rightarrow> ('k, int) dict" where
  "Counter xs = fold counter_add xs []"

text \<open>
  \<^verbatim>\<open>xs[:k]\<close>: the first \<open>k\<close> elements, and for a negative \<open>k\<close> all but the last
  \<open>-k\<close> elements.
\<close>

definition slice_to :: "'a list \<Rightarrow> int \<Rightarrow> 'a list" where
  "slice_to xs k =
     (if 0 \<le> k then take (nat k) xs else take (length xs - nat (- k)) xs)"

text \<open>
  \<^verbatim>\<open>xs.sort(key=f, reverse=True)\<close>: a stable sort by descending key; elements with
  equal keys keep the order they had.
\<close>

definition sort_reverse :: "('a \<Rightarrow> real) \<Rightarrow> 'a list \<Rightarrow> 'a list" where
  "sort_reverse f xs = sort_key (\<lambda>x. - f x) xs"

datatype py_error = KeyError | ZeroDivisionError | ValueError

section \<open>Text\<close>

text \<open>
  Text is a list of characters with code points below 256. On these, \<^verbatim>\<open>str.lower\<close>
  maps \<open>A\<close>-\<open>Z\<close> and the capital letters of Latin-1 to their small letters, and the
  class \<^verbatim>\<open>\s\<close> of \<^verbatim>\<open>re\<close> holds the characters that \<^verbatim>\<open>str.isspace\<close> accepts.
\<close>

definition lower_char :: "char \<Rightarrow> char" where
  "lower_char c =
     (let n = (of_char c :: nat)
      in if (65 \<le> n \<and> n \<le> 90) \<or> (192 \<le> n \<and> n \<le> 214) \<or> (216 \<le> n \<and> n \<le> 222)
         then char_of (n + 32) else c)"

definition lower :: "string \<Rightarrow> string" where
  "lower text = map lower_char text"

definition is_ascii_letter :: "char \<Rightarrow> bool" where
  "is_ascii_letter c =
     (let n = (of_char c :: nat) in (97 \<le> n \<and> n \<le> 122) \<or> (65 \<le> n \<and> n \<le> 90))"

definition is_space :: "char \<Rightarrow> bool" where
  "is_space c =
     (let n = (of_char c :: nat)
      in (9 \<le> n \<and> n \<le> 13) \<or> (28 \<le> n \<and> n \<le> 32) \<or> n = 133 \<or> n = 160)"

text \<open>\<^verbatim>\<open>re.sub(r'[^a-zA-Z\s]', '', text)\<close>: every other character is deleted.\<close>

definition strip_non_letters :: "string \<Rightarrow> string" where
  "strip_non_letters text = filter (\<lambda>c. is_ascii_letter c \<or> is_space c) text"

text \<open>
  The tokenizer, the stopword list and the stemmer come from the NLTK library, which is
  not part of the repository. They are parameters of the model.
\<close>

record nltk =
  word_tokenize :: "string \<Rightarrow> string list"
  stop_words :: "string set"
  stem :: "string \<Rightarrow> string"

text \<open>\<^verbatim>\<open>preprocess_text\<close>, lines 39-50.\<close>

definition preprocess_text :: "nltk \<Rightarrow> string \<Rightarrow> string list" where
  "preprocess_text L text =
     (let text1 = lower text;
          text2 = strip_non_letters text1;
          tokens = word_tokenize L text2
      in map (stem L)
           (filter (\<lambda>token. token \<notin> stop_words L \<and> length token > 2) tokens))"

subsection \<open>The normalizer as the specification describes it\<close>

text \<open>
  Modelled from the spec: NLTK's \<^verbatim>\<open>word_tokenize\<close> is not in the repository; the
  specification describes the step as splitting on whitespace. \<open>split_ws\<close> is
  \<^verbatim>\<open>str.split()\<close>: the maximal runs of characters that are not whitespace.
\<close>

function split_ws :: "string \<Rightarrow> string list" where
  "split_ws [] = []"
| "split_ws (c # cs) =
     (if is_space c then split_ws cs
      else (c # takeWhile (\<lambda>x. \<not> is_space x) cs)
             # split_ws (dropWhile (\<lambda>x. \<not> is_space x) cs))"
  by pat_completeness auto
termination
  by (relation "measure length") (auto simp: length_dropWhile_le less_Suc_eq_le)


text \<open>
  A small instance of the library, to run the model on examples: whitespace splitting,
  a few of the English stopwords, and a stemmer that leaves its argument alone. The
  examples below use the words \<open>cat\<close> and \<open>dog\<close> only, which the Porter stemmer maps to
  themselves.
\<close>

definition example_nltk :: nltk where
  "example_nltk =
     \<lparr>word_tokenize = split_ws,
      stop_words = set [''the'', ''and'', ''are'', ''that'', ''can'', ''not''],
      stem = (\<lambda>w. w)\<rparr>"

section \<open>The engine\<close>

text \<open>
  A stored document is the dictionary that \<^verbatim>\<open>add_document\<close> builds (lines 58-63), a
  search result the one that \<^verbatim>\<open>search\<close> builds (lines 139-145).
\<close>

record document =
  d_title :: string
  d_content :: string
  d_url :: string
  d_tokens :: "string list"

record result =
  r_doc_id :: string
  r_score :: real
  r_title :: string
  r_snippet :: string
  r_url :: string

text \<open>
  The TF-IDF vectorizer is created by the constructor and only ever fitted by
  \<^verbatim>\<open>build_tfidf_index\<close>, which nothing calls; it is an opaque value here.
\<close>

datatype vectorizer = TfidfVectorizer

type_synonym index = "(string, (string, int) dict) dict"

text \<open>
  The attributes of \<^verbatim>\<open>MiniGoogleSearch\<close> (lines 25-34). The stemmer and the stopword
  set are the library parameters. Scores are Python floats; the model computes with
  real numbers.
\<close>

record engine =
  documents :: "(string, document) dict"
  inverted_index :: index
  doc_lengths :: "(string, int) dict"
  avg_doc_length :: real
  total_docs :: int
  vectorizer :: vectorizer

definition MiniGoogleSearch_init :: engine where
  "MiniGoogleSearch_init =
     \<lparr>documents = [], inverted_index = [], doc_lengths = [], avg_doc_length = 0,
      total_docs = 0, vectorizer = TfidfVectorizer\<rparr>"

subsection \<open>Ingestion\<close>

text \<open>
  Lines 68-70, the body of the loop over \<^verbatim>\<open>token_counts.items()\<close>. Every
  \<^verbatim>\<open>self.inverted_index[token]\<close> is a read of the defaultdict; the read of
  \<^verbatim>\<open>[doc_id]\<close> in \<^verbatim>\<open>+=\<close> raises \<^verbatim>\<open>KeyError\<close> on a missing key.
\<close>

definition index_add :: "string \<Rightarrow> index \<Rightarrow> string \<times> int \<Rightarrow> py_error + index" where
  "index_add doc_id idx tc =
     (case tc of (token, count) \<Rightarrow>
        (case dd_getitem idx token of (entry, idx1) \<Rightarrow>
           let idx2 =
                 (if \<not> dict_contains entry doc_id
                  then (case dd_getitem idx1 token of (entry1, idx1') \<Rightarrow>
                          dict_set idx1' token (dict_set entry1 doc_id 0))
                  else idx1)
           in (case dd_getitem idx2 token of (entry2, idx3) \<Rightarrow>
                 (case dict_get entry2 doc_id of
                    None \<Rightarrow> Inl KeyError
                  | Some n \<Rightarrow> Inr (dict_set idx3 token (dict_set entry2 doc_id (n + count)))))))"

fun index_add_all :: "string \<Rightarrow> index \<Rightarrow> (string \<times> int) list \<Rightarrow> py_error + index" where
  "index_add_all doc_id idx [] = Inr idx"
| "index_add_all doc_id idx (tc # rest) =
     (case index_add doc_id idx tc of
        Inl e \<Rightarrow> Inl e
      | Inr idx' \<Rightarrow> index_add_all doc_id idx' rest)"

text \<open>\<^verbatim>\<open>add_document\<close>, lines 52-72.\<close>

definition add_document ::
  "nltk \<Rightarrow> engine \<Rightarrow> string \<Rightarrow> string \<Rightarrow> string \<Rightarrow> string \<Rightarrow> py_error + engine" where
  "add_document L s doc_id title content url =
     (let full_text = title @ '' '' @ content;
          tokens = preprocess_text L full_text;
          s1 = s\<lparr>documents := dict_set (documents s) doc_id
                  \<lparr>d_title = title, d_content = take 200 content @ ''...'',
                   d_url = url, d_tokens = tokens\<rparr>\<rparr>;
          token_counts = Counter tokens
      in case index_add_all doc_id (inverted_index s1) token_counts of
           Inl e \<Rightarrow> Inl e
         | Inr idx \<Rightarrow> Inr (s1\<lparr>inverted_index := idx, total_docs := total_docs s1 + 1\<rparr>))"

text \<open>
  A sequence of \<^verbatim>\<open>add_document\<close> calls, each given as
  \<open>(doc_id, title, content, url)\<close>, as the crawler issues them.
\<close>

type_synonym call = "string \<times> string \<times> string \<times> string"

fun add_documents :: "nltk \<Rightarrow> engine \<Rightarrow> call list \<Rightarrow> py_error + engine" where
  "add_documents L s [] = Inr s"
| "add_documents L s ((doc_id, title, content, url) # rest) =
     (case add_document L s doc_id title content url of
        Inl e \<Rightarrow> Inl e
      | Inr s' \<Rightarrow> add_documents L s' rest)"

subsection \<open>Ranking\<close>

text \<open>\<^verbatim>\<open>self.inverted_index[token]\<close> on the engine: the read may extend the index.\<close>

definition index_getitem :: "engine \<Rightarrow> string \<Rightarrow> (string, int) dict \<times> engine" where
  "index_getitem s token =
     (case dd_getitem (inverted_index s) token of
        (e, idx) \<Rightarrow> (e, s\<lparr>inverted_index := idx\<rparr>))"

text \<open>
  The loop of \<^verbatim>\<open>bm25_score\<close>, lines 99-111. \<^verbatim>\<open>math.log\<close> raises \<^verbatim>\<open>ValueError\<close>
  on an argument that is not positive, and a division by zero raises
  \<^verbatim>\<open>ZeroDivisionError\<close>; \<open>df + 0.5\<close> is positive, \<open>df\<close> being a length.
\<close>

fun bm25_loop ::
  "real \<Rightarrow> real \<Rightarrow> string \<Rightarrow> int \<Rightarrow> string list \<Rightarrow> real \<Rightarrow> engine
     \<Rightarrow> (py_error + real) \<times> engine" where
  "bm25_loop k1 b doc_id doc_length [] score s = (Inr score, s)"
| "bm25_loop k1 b doc_id doc_length (token # rest) score s =
     (if dict_contains (inverted_index s) token then
        (case index_getitem s token of (e, s1) \<Rightarrow>
           if dict_contains e doc_id then
             (case index_getitem s1 token of (e2, s2) \<Rightarrow>
                (case dict_get e2 doc_id of
                   None \<Rightarrow> (Inl KeyError, s2)
                 | Some tf \<Rightarrow>
                     (case index_getitem s2 token of (e3, s3) \<Rightarrow>
                        let df = dict_len e3;
                            x = (real_of_int (total_docs s3) - real_of_int df + 0.5)
                                  / (real_of_int df + 0.5) + 1.0
                        in if x \<le> 0 then (Inl ValueError, s3)
                           else
                             let idf = ln x;
                                 numerator = real_of_int tf * (k1 + 1)
                             in if avg_doc_length s3 = 0 then (Inl ZeroDivisionError, s3)
                                else
                                  let denominator =
                                        real_of_int tf
                                          + k1 * (1 - b
                                              + b * (real_of_int doc_length / avg_doc_length s3))
                                  in if denominator = 0 then (Inl ZeroDivisionError, s3)
                                     else bm25_loop k1 b doc_id doc_length rest
                                            (score + idf * (numerator / denominator)) s3)))
           else bm25_loop k1 b doc_id doc_length rest score s1)
      else bm25_loop k1 b doc_id doc_length rest score s)"

text \<open>\<^verbatim>\<open>bm25_score\<close>, lines 88-113.\<close>

definition bm25_score ::
  "nltk \<Rightarrow> engine \<Rightarrow> string \<Rightarrow> string \<Rightarrow> real \<Rightarrow> real \<Rightarrow> (py_error + real) \<times> engine" where
  "bm25_score L s query doc_id k1 b =
     (case dict_get (documents s) doc_id of
        None \<Rightarrow> (Inr 0, s)
      | Some doc \<Rightarrow>
          let doc_tokens = d_tokens doc;
              query_tokens = preprocess_text L query;
              doc_length = int (length doc_tokens)
          in bm25_loop k1 b doc_id doc_length query_tokens 0 s)"

text \<open>The term-frequency loop of \<^verbatim>\<open>search\<close>, lines 130-133.\<close>

fun tf_loop :: "string \<Rightarrow> string list \<Rightarrow> int \<Rightarrow> engine \<Rightarrow> (py_error + int) \<times> engine" where
  "tf_loop doc_id [] tf_score s = (Inr tf_score, s)"
| "tf_loop doc_id (token # rest) tf_score s =
     (if dict_contains (inverted_index s) token then
        (case index_getitem s token of (e, s1) \<Rightarrow>
           if dict_contains e doc_id then
             (case index_getitem s1 token of (e2, s2) \<Rightarrow>
                (case dict_get e2 doc_id of
                   None \<Rightarrow> (Inl KeyError, s2)
                 | Some c \<Rightarrow> tf_loop doc_id rest (tf_score + c) s2))
           else tf_loop doc_id rest tf_score s1)
      else tf_loop doc_id rest tf_score s)"

text \<open>The loop over the documents, lines 125-145.\<close>

fun search_loop ::
  "nltk \<Rightarrow> string \<Rightarrow> string list \<Rightarrow> string list \<Rightarrow> result list \<Rightarrow> engine
     \<Rightarrow> (py_error + result list) \<times> engine" where
  "search_loop L query query_tokens [] results s = (Inr results, s)"
| "search_loop L query query_tokens (doc_id # rest) results s =
     (case bm25_score L s query doc_id 1.5 0.75 of
        (Inl e, s1) \<Rightarrow> (Inl e, s1)
      | (Inr bm25, s1) \<Rightarrow>
          (case tf_loop doc_id query_tokens 0 s1 of
             (Inl e, s2) \<Rightarrow> (Inl e, s2)
           | (Inr tf_score, s2) \<Rightarrow>
               let combined_score = bm25 * 0.7 + real_of_int tf_score * 0.3
               in if combined_score > 0 then
                    (case dict_get (documents s2) doc_id of
                       None \<Rightarrow> (Inl KeyError, s2)
                     | Some doc \<Rightarrow>
                         search_loop L query query_tokens rest
                           (results @
                              [\<lparr>r_doc_id = doc_id, r_score = combined_score,
                                r_title = d_title doc, r_snippet = d_content doc,
                                r_url = d_url doc\<rparr>]) s2)
                  else search_loop L query query_tokens rest results s2))"

text \<open>\<^verbatim>\<open>search\<close>, lines 115-149.\<close>

definition search ::
  "nltk \<Rightarrow> engine \<Rightarrow> string \<Rightarrow> int \<Rightarrow> (py_error + result list) \<times> engine" where
  "search L s query top_k =
     (if total_docs s = 0 then (Inr [], s)
      else
        let query_tokens = preprocess_text L query
        in case search_loop L query query_tokens (dict_keys (documents s)) [] s of
             (Inl e, s1) \<Rightarrow> (Inl e, s1)
           | (Inr results, s1) \<Rightarrow>
               (Inr (slice_to (sort_reverse r_score results) top_k), s1))"

subsection \<open>Persistence\<close>





subsection \<open>Scoring as the specification states it\<close>

text \<open>
  The occurrence count that the Inverted Index holds for a term and a document, if it
  holds one; the query terms present in a document are those with a count.
\<close>

definition index_count :: "engine \<Rightarrow> string \<Rightarrow> string \<Rightarrow> int option" where
  "index_count s token doc_id =
     (case dict_get (inverted_index s) token of
        None \<Rightarrow> None
      | Some e \<Rightarrow> dict_get e doc_id)"

definition matching_terms :: "engine \<Rightarrow> string \<Rightarrow> string list \<Rightarrow> string list" where
  "matching_terms s doc_id query_tokens =
     filter (\<lambda>t. index_count s t doc_id \<noteq> None) query_tokens"

definition tf_spec :: "engine \<Rightarrow> string \<Rightarrow> string \<Rightarrow> int" where
  "tf_spec s doc_id t = (case index_count s t doc_id of None \<Rightarrow> 0 | Some n \<Rightarrow> n)"

definition df_spec :: "engine \<Rightarrow> string \<Rightarrow> int" where
  "df_spec s t = (case dict_get (inverted_index s) t of None \<Rightarrow> 0 | Some e \<Rightarrow> dict_len e)"

definition idf_spec :: "engine \<Rightarrow> string \<Rightarrow> real" where
  "idf_spec s t =
     ln ((real_of_int (total_docs s) - real_of_int (df_spec s t) + 0.5)
           / (real_of_int (df_spec s t) + 0.5) + 1.0)"

text \<open>
  \<open>idf * (tf * (k1 + 1)) / (tf + k1 * (1 - b + b * (dl / avg_doc_length)))\<close> with
  \<open>k1 = 1.5\<close> and \<open>b = 0.75\<close>.
\<close>

definition bm25_contribution :: "engine \<Rightarrow> string \<Rightarrow> int \<Rightarrow> string \<Rightarrow> real" where
  "bm25_contribution s doc_id dl t =
     idf_spec s t * (real_of_int (tf_spec s doc_id t) * (1.5 + 1))
       / (real_of_int (tf_spec s doc_id t)
            + 1.5 * (1 - 0.75 + 0.75 * (real_of_int dl / avg_doc_length s)))"

definition bm25_component :: "engine \<Rightarrow> string \<Rightarrow> int \<Rightarrow> string list \<Rightarrow> real" where
  "bm25_component s doc_id dl query_tokens =
     sum_list (map (bm25_contribution s doc_id dl) (matching_terms s doc_id query_tokens))"

definition raw_tf_component :: "engine \<Rightarrow> string \<Rightarrow> string list \<Rightarrow> int" where
  "raw_tf_component s doc_id query_tokens =
     sum_list (map (tf_spec s doc_id) (matching_terms s doc_id query_tokens))"

definition combined_score_spec :: "engine \<Rightarrow> string \<Rightarrow> int \<Rightarrow> string list \<Rightarrow> real" where
  "combined_score_spec s doc_id dl query_tokens =
     0.7 * bm25_component s doc_id dl query_tokens
       + 0.3 * real_of_int (raw_tf_component s doc_id query_tokens)"

text \<open>
  What the specification asks of a result \<open>r\<close> of a search: it belongs to a stored
  document, carries that document's title, snippet and url, and its score is the
  combined score of the document, which is positive.
\<close>

definition scored :: "nltk \<Rightarrow> engine \<Rightarrow> string \<Rightarrow> result \<Rightarrow> bool" where
  "scored L s query r \<longleftrightarrow>
     (\<exists>doc. dict_get (documents s) (r_doc_id r) = Some doc
        \<and> r_score r = combined_score_spec s (r_doc_id r) (int (length (d_tokens doc)))
                         (preprocess_text L query)
        \<and> r_title r = d_title doc \<and> r_snippet r = d_content doc \<and> r_url r = d_url doc)
     \<and> r_score r > 0"

text \<open>
  The arithmetic mean of the token-sequence lengths of the stored documents, and 0 for
  an empty store.
\<close>

definition mean_doc_length :: "engine \<Rightarrow> real" where
  "mean_doc_length s =
     (if documents s = [] then 0
      else real (sum_list (map (\<lambda>(doc_id, doc). length (d_tokens doc)) (documents s)))
             / real (length (documents s)))"

subsection \<open>The invariant of the Inverted Index\<close>

text \<open>
  The invariant as the specification states it: a term is a key of the index exactly
  when some document has a positive count for it, and every count belongs to a stored
  document and is the number of occurrences of the term in its token sequence.
  \<open>index_exact\<close> is the form in which the ingestion keeps it: no entry is empty, and
  the index holds a count for a term and a document exactly when the term occurs in the
  stored tokens of the document.
\<close>

definition index_lookup :: "index \<Rightarrow> string \<Rightarrow> string \<Rightarrow> int option" where
  "index_lookup idx token doc_id =
     (case dict_get idx token of
        None \<Rightarrow> None
      | Some e \<Rightarrow> dict_get e doc_id)"

definition index_consistent :: "engine \<Rightarrow> bool" where
  "index_consistent s \<longleftrightarrow>
     (\<forall>t. dict_contains (inverted_index s) t
            \<longleftrightarrow> (\<exists>d n. index_count s t d = Some n \<and> 0 < n))
     \<and> (\<forall>t d n. index_count s t d = Some n \<longrightarrow>
           (\<exists>doc. dict_get (documents s) d = Some doc
              \<and> n = int (count_list (d_tokens doc) t)))"

definition index_exact :: "engine \<Rightarrow> bool" where
  "index_exact s \<longleftrightarrow>
     (\<forall>t. dict_get (inverted_index s) t \<noteq> Some [])
     \<and> (\<forall>t d. index_lookup (inverted_index s) t d =
           (case dict_get (documents s) d of
              None \<Rightarrow> None
            | Some doc \<Rightarrow>
                if t \<in> set (d_tokens doc) then Some (int (count_list (d_tokens doc) t))
                else None))"

subsection \<open>Example states\<close>

text \<open>The engine after \<^verbatim>\<open>add_document("d1", "cat", "cat dog", "u1")\<close> on a new instance.\<close>

definition example_state1 :: engine where
  "example_state1 =
     \<lparr>documents =
        [(''d1'', \<lparr>d_title = ''cat'', d_content = ''cat dog...'', d_url = ''u1'',
                  d_tokens = [''cat'', ''cat'', ''dog'']\<rparr>)],
      inverted_index = [(''cat'', [(''d1'', 2)]), (''dog'', [(''d1'', 1)])],
      doc_lengths = [], avg_doc_length = 0, total_docs = 1,
      vectorizer = TfidfVectorizer\<rparr>"

text \<open>The same call issued twice.\<close>

definition readd_calls :: "call list" where
  "readd_calls = [(''d1'', ''cat'', ''cat dog'', ''u1''), (''d1'', ''cat'', ''cat dog'', ''u1'')]"

definition example_state_readd :: engine where
  "example_state_readd =
     \<lparr>documents =
        [(''d1'', \<lparr>d_title = ''cat'', d_content = ''cat dog...'', d_url = ''u1'',
                  d_tokens = [''cat'', ''cat'', ''dog'']\<rparr>)],
      inverted_index = [(''cat'', [(''d1'', 4)]), (''dog'', [(''d1'', 2)])],
      doc_lengths = [], avg_doc_length = 0, total_docs = 2,
      vectorizer = TfidfVectorizer\<rparr>"

text \<open>
  Three documents, and the state they lead to once the average length has been assigned
  its value 2, which \<^verbatim>\<open>add_document\<close> does not do.
\<close>

definition ranked_calls :: "call list" where
  "ranked_calls =
     [(''d1'', ''cat'', ''dog'', ''u1''), (''d2'', ''cat'', ''dog'', ''u2''),
      (''d3'', ''cat'', ''cat'', ''u3'')]"

definition example_ranked_state :: engine where
  "example_ranked_state =
     \<lparr>documents =
        [(''d1'', \<lparr>d_title = ''cat'', d_content = ''dog...'', d_url = ''u1'',
                  d_tokens = [''cat'', ''dog'']\<rparr>),
         (''d2'', \<lparr>d_title = ''cat'', d_content = ''dog...'', d_url = ''u2'',
                  d_tokens = [''cat'', ''dog'']\<rparr>),
         (''d3'', \<lparr>d_title = ''cat'', d_content = ''cat...'', d_url = ''u3'',
                  d_tokens = [''cat'', ''cat'']\<rparr>)],
      inverted_index =
        [(''cat'', [(''d1'', 1), (''d2'', 1), (''d3'', 2)]),
         (''dog'', [(''d1'', 1), (''d2'', 1)])],
      doc_lengths = [], avg_doc_length = 2, total_docs = 3,
      vectorizer = TfidfVectorizer\<rparr>"

text \<open>A result for one of these documents; all three have the title \<open>cat\<close>.\<close>

definition ranked_result :: "string \<Rightarrow> real \<Rightarrow> string \<Rightarrow> string \<Rightarrow> result" where
  "ranked_result doc_id sc snip u =
     \<lparr>r_doc_id = doc_id, r_score = sc, r_title = ''cat'', r_snippet = snip, r_url = u\<rparr>"

section \<open>Normalizer\<close>


lemma example_preprocess:
  "preprocess_text example_nltk ''Cat dog! 42 the cat'' = [''cat'', ''dog'', ''cat'']"
  by code_simp



section \<open>Dictionaries\<close>

lemma dict_contains_get: "dict_contains d k \<longleftrightarrow> dict_get d k \<noteq> None"
  by (induction d) (auto split: if_splits)

lemma dict_get_set: "dict_get (dict_set d k v) k' = (if k = k' then Some v else dict_get d k')"
  by (induction d) auto

lemma index_getitem_present:
  "dict_contains (inverted_index s) token \<Longrightarrow> snd (index_getitem s token) = s"
  by (auto simp: index_getitem_def dd_getitem_def dict_contains_get split: option.splits)

lemma index_getitem_Some:
  "dict_get (inverted_index s) token = Some e \<Longrightarrow> index_getitem s token = (e, s)"
  by (simp add: index_getitem_def dd_getitem_def)

section \<open>Searching changes nothing\<close>

text \<open>
  Each loop reads the defaultdict only under the guard \<^verbatim>\<open>token in self.inverted_index\<close>,
  so no read adds a key.
\<close>

lemma bm25_loop_state: "snd (bm25_loop k1 b doc_id dl toks score s) = s"
proof (induction toks arbitrary: score)
  case Nil
  show ?case by simp
next
  case (Cons token rest)
  show ?case
  proof (cases "dict_contains (inverted_index s) token")
    case False
    then show ?thesis using Cons.IH by simp
  next
    case True
    then obtain e where e: "index_getitem s token = (e, s)"
      using index_getitem_present[of s token] by (cases "index_getitem s token") simp
    show ?thesis
      using True e Cons.IH
      by (simp add: Let_def split: option.splits)
  qed
qed

lemma tf_loop_state: "snd (tf_loop doc_id toks tf s) = s"
proof (induction toks arbitrary: tf)
  case Nil
  show ?case by simp
next
  case (Cons token rest)
  show ?case
  proof (cases "dict_contains (inverted_index s) token")
    case False
    then show ?thesis using Cons.IH by simp
  next
    case True
    then obtain e where e: "index_getitem s token = (e, s)"
      using index_getitem_present[of s token] by (cases "index_getitem s token") simp
    show ?thesis
      using True e Cons.IH
      by (simp split: option.splits)
  qed
qed

lemma bm25_score_state: "snd (bm25_score L s query doc_id k1 b) = s"
  by (simp add: bm25_score_def bm25_loop_state Let_def split: option.splits)

lemma search_loop_state: "snd (search_loop L query qts ids results s) = s"
proof (induction ids arbitrary: results)
  case Nil
  show ?case by simp
next
  case (Cons doc_id rest)
  obtain r1 where r1: "bm25_score L s query doc_id 1.5 0.75 = (r1, s)"
    using bm25_score_state[of L s query doc_id "1.5" "0.75"]
    by (cases "bm25_score L s query doc_id 1.5 0.75") simp
  obtain r2 where r2: "tf_loop doc_id qts 0 s = (r2, s)"
    using tf_loop_state[of doc_id qts 0 s] by (cases "tf_loop doc_id qts 0 s") simp
  show ?case
    using r1 r2 Cons.IH
    by (simp add: Let_def split: sum.splits option.splits)
qed

lemma search_state: "snd (search L s query top_k) = s"
proof -
  obtain r where
    r: "search_loop L query (preprocess_text L query) (dict_keys (documents s)) [] s = (r, s)"
    using search_loop_state[of L query "preprocess_text L query" "dict_keys (documents s)" "[]" s]
    by (cases "search_loop L query (preprocess_text L query) (dict_keys (documents s)) [] s")
       simp
  show ?thesis using r by (simp add: search_def Let_def split: sum.splits)
qed

text \<open>
  C9. \<open>search\<close> and \<open>bm25_score\<close> leave the engine as it was, whatever they return or
  raise: the Document Store, the Inverted Index with its keys, \<open>total_docs\<close> and
  \<open>avg_doc_length\<close> are those of the state before the call.
\<close>

theorem search_leaves_engine_unchanged:
  "snd (search L s query top_k) = s \<and> snd (bm25_score L s query doc_id k1 b) = s"
  by (simp add: search_state bm25_score_state)

section \<open>Ingestion\<close>

text \<open>\<open>add_document\<close> never raises: line 69 stores the key that line 70 reads.\<close>

lemma index_add_returns: "\<exists>idx'. index_add doc_id idx tc = Inr idx'"
  by (cases tc)
     (auto simp: index_add_def dd_getitem_def dict_get_set dict_contains_get Let_def
           split: option.splits)

lemma index_add_all_returns: "\<exists>idx'. index_add_all doc_id idx tcs = Inr idx'"
proof (induction tcs arbitrary: idx)
  case Nil
  show ?case by simp
next
  case (Cons tc rest)
  obtain idx1 where "index_add doc_id idx tc = Inr idx1"
    using index_add_returns by blast
  then show ?case using Cons.IH[of idx1] by simp
qed

lemma add_document_returns: "\<exists>s'. add_document L s doc_id title content url = Inr s'"
proof -
  let ?s1 = "s\<lparr>documents := dict_set (documents s) doc_id
                  \<lparr>d_title = title, d_content = take 200 content @ ''...'',
                   d_url = url, d_tokens = preprocess_text L (title @ '' '' @ content)\<rparr>\<rparr>"
  obtain idx where "index_add_all doc_id (inverted_index ?s1)
       (Counter (preprocess_text L (title @ '' '' @ content))) = Inr idx"
    using index_add_all_returns by blast
  then show ?thesis by (simp add: add_document_def Let_def)
qed

lemma add_documents_returns: "\<exists>s'. add_documents L s calls = Inr s'"
proof (induction calls arbitrary: s)
  case Nil
  show ?case by simp
next
  case (Cons c rest)
  obtain doc_id title content url where c: "c = (doc_id, title, content, url)"
    by (cases c) auto
  obtain s1 where "add_document L s doc_id title content url = Inr s1"
    using add_document_returns by blast
  then show ?case using Cons.IH[of s1] c by simp
qed

text \<open>
  What a call leaves alone and what it counts: \<open>avg_doc_length\<close> keeps its value and
  \<open>total_docs\<close> grows by one with every call.
\<close>

lemma add_document_frame:
  assumes "add_document L s doc_id title content url = Inr s'"
  shows "avg_doc_length s' = avg_doc_length s \<and> doc_lengths s' = doc_lengths s
         \<and> vectorizer s' = vectorizer s \<and> total_docs s' = total_docs s + 1"
  using assms by (auto simp: add_document_def Let_def split: sum.splits)

lemma add_documents_frame:
  assumes "add_documents L s calls = Inr s'"
  shows "avg_doc_length s' = avg_doc_length s \<and> doc_lengths s' = doc_lengths s
         \<and> vectorizer s' = vectorizer s \<and> total_docs s' = total_docs s + int (length calls)"
  using assms
proof (induction calls arbitrary: s)
  case Nil
  then show ?case by simp
next
  case (Cons c rest)
  obtain doc_id title content url where c: "c = (doc_id, title, content, url)"
    by (cases c) auto
  obtain s1 where s1: "add_document L s doc_id title content url = Inr s1"
    using add_document_returns by blast
  have "add_documents L s1 rest = Inr s'"
    using Cons.prems c s1 by simp
  from Cons.IH[OF this] add_document_frame[OF s1] show ?case by simp
qed

section \<open>Examples of ingestion\<close>

lemma example_add1:
  "add_document example_nltk MiniGoogleSearch_init ''d1'' ''cat'' ''cat dog'' ''u1''
     = Inr example_state1"
  by code_simp

lemma example_readd:
  "add_documents example_nltk MiniGoogleSearch_init readd_calls = Inr example_state_readd"
  by code_simp

lemma ranked_reach:
  "add_documents example_nltk MiniGoogleSearch_init ranked_calls
     = Inr (example_ranked_state\<lparr>avg_doc_length := 0\<rparr>)"
  by code_simp

lemma query_cat: "preprocess_text example_nltk ''cat'' = [''cat'']"
  by code_simp


text \<open>
  C1. The claim is that \<open>avg_doc_length\<close> is the mean token-sequence length after every
  \<open>add_document\<close>. Here is what the code does on the first call of a new instance: the
  stored document has three tokens and \<open>avg_doc_length\<close> is still 0.
\<close>

theorem avg_doc_length_stays_zero:
  "add_document example_nltk MiniGoogleSearch_init ''d1'' ''cat'' ''cat dog'' ''u1''
     = Inr example_state1
   \<and> avg_doc_length example_state1 = 0
   \<and> mean_doc_length example_state1 = 3"
  by (simp add: example_add1) (simp add: example_state1_def mean_doc_length_def)

text \<open>
  C3. The claim is that \<open>total_docs\<close> is the number of distinct ids added so far. Here is
  what the code does when the same id is added twice: one id, one stored document, and
  \<open>total_docs\<close> is 2.
\<close>

theorem total_docs_counts_calls:
  "add_documents example_nltk MiniGoogleSearch_init readd_calls = Inr example_state_readd
   \<and> total_docs example_state_readd = 2
   \<and> remdups (map fst readd_calls) = [''d1'']
   \<and> dict_keys (documents example_state_readd) = [''d1'']"
  by (simp add: example_readd)
     (simp add: example_state_readd_def readd_calls_def dict_keys_def)

text \<open>
  C4. The claim is that every count of the Inverted Index is the number of occurrences of
  the term in the stored token sequence of the document. Here is what the code does when
  the same id is added twice: the stored document holds \<open>cat\<close> twice and the index
  counts it four times.
\<close>

theorem index_count_not_retracted:
  "add_documents example_nltk MiniGoogleSearch_init readd_calls = Inr example_state_readd
   \<and> index_count example_state_readd ''cat'' ''d1'' = Some 4
   \<and> map_option (\<lambda>doc. count_list (d_tokens doc) ''cat'')
        (dict_get (documents example_state_readd) ''d1'') = Some 2"
  by (simp add: example_readd)
     (simp add: example_state_readd_def index_count_def)

section \<open>Persistence\<close>




section \<open>Ranking\<close>

subsection \<open>One step of each loop\<close>

lemma bm25_loop_skip:
  assumes "index_count s token doc_id = None"
  shows "bm25_loop k1 b doc_id dl (token # rest) score s
           = bm25_loop k1 b doc_id dl rest score s"
proof (cases "dict_get (inverted_index s) token")
  case None
  then show ?thesis by (simp add: dict_contains_get)
next
  case (Some e)
  then have "dict_get e doc_id = None"
    using assms by (simp add: index_count_def)
  then show ?thesis
    using Some by (simp add: dict_contains_get index_getitem_Some)
qed

lemma bm25_loop_match:
  assumes "index_count s token doc_id = Some tf"
  shows "bm25_loop k1 b doc_id dl (token # rest) score s =
     (let x = (real_of_int (total_docs s) - real_of_int (df_spec s token) + 0.5)
                / (real_of_int (df_spec s token) + 0.5) + 1.0
      in if x \<le> 0 then (Inl ValueError, s)
         else if avg_doc_length s = 0 then (Inl ZeroDivisionError, s)
         else
           let denominator =
                 real_of_int tf + k1 * (1 - b + b * (real_of_int dl / avg_doc_length s))
           in if denominator = 0 then (Inl ZeroDivisionError, s)
              else bm25_loop k1 b doc_id dl rest
                     (score + ln x * (real_of_int tf * (k1 + 1) / denominator)) s)"
proof -
  obtain e where e: "dict_get (inverted_index s) token = Some e"
    and tf: "dict_get e doc_id = Some tf"
    using assms by (auto simp: index_count_def split: option.splits)
  show ?thesis
    using e tf by (simp add: dict_contains_get index_getitem_Some df_spec_def Let_def)
qed

lemma tf_loop_skip:
  assumes "index_count s token doc_id = None"
  shows "tf_loop doc_id (token # rest) acc s = tf_loop doc_id rest acc s"
proof (cases "dict_get (inverted_index s) token")
  case None
  then show ?thesis by (simp add: dict_contains_get)
next
  case (Some e)
  then have "dict_get e doc_id = None"
    using assms by (simp add: index_count_def)
  then show ?thesis
    using Some by (simp add: dict_contains_get index_getitem_Some)
qed

lemma tf_loop_match:
  assumes "index_count s token doc_id = Some c"
  shows "tf_loop doc_id (token # rest) acc s = tf_loop doc_id rest (acc + c) s"
proof -
  obtain e where e: "dict_get (inverted_index s) token = Some e"
    and tf: "dict_get e doc_id = Some c"
    using assms by (auto simp: index_count_def split: option.splits)
  show ?thesis
    using e tf by (simp add: dict_contains_get index_getitem_Some)
qed

declare bm25_loop.simps(2) [simp del] tf_loop.simps(2) [simp del]

subsection \<open>The values the loops compute\<close>

lemma tf_loop_value:
  "tf_loop doc_id toks acc s = (Inr (acc + raw_tf_component s doc_id toks), s)"
proof (induction toks arbitrary: acc)
  case Nil
  show ?case by (simp add: raw_tf_component_def matching_terms_def)
next
  case (Cons token rest)
  show ?case
  proof (cases "index_count s token doc_id")
    case None
    then show ?thesis
      using Cons.IH by (simp add: tf_loop_skip raw_tf_component_def matching_terms_def)
  next
    case (Some c)
    then show ?thesis
      using Cons.IH
      by (simp add: tf_loop_match raw_tf_component_def matching_terms_def tf_spec_def)
  qed
qed

lemma bm25_loop_value:
  assumes "bm25_loop 1.5 0.75 doc_id dl toks score s = (Inr r, s')"
  shows "r = score + bm25_component s doc_id dl toks"
  using assms
proof (induction toks arbitrary: score)
  case Nil
  then show ?case by (simp add: bm25_component_def matching_terms_def)
next
  case (Cons token rest)
  show ?case
  proof (cases "index_count s token doc_id")
    case None
    then show ?thesis
      using Cons.IH[of score] Cons.prems
      by (simp add: bm25_loop_skip bm25_component_def matching_terms_def)
  next
    case (Some tf)
    let ?x = "(real_of_int (total_docs s) - real_of_int (df_spec s token) + 0.5)
                / (real_of_int (df_spec s token) + 0.5) + 1.0"
    let ?den = "real_of_int tf + 1.5 * (1 - 0.75 + 0.75 * (real_of_int dl / avg_doc_length s))"
    let ?c = "ln ?x * (real_of_int tf * (1.5 + 1) / ?den)"
    have rest: "bm25_loop 1.5 0.75 doc_id dl rest (score + ?c) s = (Inr r, s')"
      using Cons.prems Some
      by (simp add: bm25_loop_match Let_def split: if_splits)
    have c: "?c = bm25_contribution s doc_id dl token"
      using Some by (simp add: bm25_contribution_def idf_spec_def tf_spec_def)
    have "r = (score + ?c) + bm25_component s doc_id dl rest"
      using Cons.IH[OF rest] .
    then show ?thesis
      using Some c by (simp add: bm25_component_def matching_terms_def)
  qed
qed

subsection \<open>The results of a search\<close>

lemma search_loop_results:
  assumes "search_loop L query (preprocess_text L query) ids results s = (Inr rs, s')"
  shows "\<exists>new. rs = results @ new \<and> subseq (map r_doc_id new) ids
           \<and> (\<forall>r\<in>set new. scored L s query r)"
  using assms
proof (induction ids arbitrary: results)
  case Nil
  then show ?case by simp
next
  case (Cons doc_id rest)
  let ?qts = "preprocess_text L query"
  obtain r1 where r1: "bm25_score L s query doc_id 1.5 0.75 = (r1, s)"
    using bm25_score_state[of L s query doc_id "1.5" "0.75"]
    by (cases "bm25_score L s query doc_id 1.5 0.75") simp
  have r2: "tf_loop doc_id ?qts 0 s = (Inr (raw_tf_component s doc_id ?qts), s)"
    using tf_loop_value[of doc_id ?qts 0 s] by simp
  obtain bm25 where bm25: "r1 = Inr bm25"
    using Cons.prems r1 by (cases r1) simp_all
  let ?c = "bm25 * 0.7 + real_of_int (raw_tf_component s doc_id ?qts) * 0.3"
  show ?case
  proof (cases "?c > 0")
    case False
    then have "search_loop L query ?qts rest results s = (Inr rs, s')"
      using Cons.prems r1 r2 bm25 by (simp add: Let_def)
    from Cons.IH[OF this] obtain new where
      new: "rs = results @ new" "subseq (map r_doc_id new) rest"
           "\<forall>r\<in>set new. scored L s query r"
      by blast
    have "subseq (map r_doc_id new) (doc_id # rest)"
      using new(2) by (rule list_emb_Cons)
    then show ?thesis using new by blast
  next
    case True
    then obtain doc where doc: "dict_get (documents s) doc_id = Some doc"
      using Cons.prems r1 r2 bm25
      by (cases "dict_get (documents s) doc_id") (simp_all add: Let_def)
    let ?r = "\<lparr>r_doc_id = doc_id, r_score = ?c, r_title = d_title doc,
               r_snippet = d_content doc, r_url = d_url doc\<rparr>"
    have step: "search_loop L query ?qts rest (results @ [?r]) s = (Inr rs, s')"
      using Cons.prems r1 r2 bm25 True doc by (simp add: Let_def)
    from Cons.IH[OF step] obtain new where
      new: "rs = (results @ [?r]) @ new" "subseq (map r_doc_id new) rest"
           "\<forall>r\<in>set new. scored L s query r"
      by blast
    have "bm25_loop 1.5 0.75 doc_id (int (length (d_tokens doc))) ?qts 0 s = (Inr bm25, s)"
      using r1 bm25 doc by (simp add: bm25_score_def Let_def)
    then have "bm25 = bm25_component s doc_id (int (length (d_tokens doc))) ?qts"
      using bm25_loop_value by fastforce
    then have "scored L s query ?r"
      using True doc by (simp add: scored_def combined_score_spec_def)
    then have all: "\<forall>r\<in>set (?r # new). scored L s query r"
      using new(3) by simp
    have sub: "subseq (map r_doc_id (?r # new)) (doc_id # rest)"
      using new(2) by simp
    have "rs = results @ (?r # new)"
      using new(1) by simp
    then show ?thesis using all sub by blast
  qed
qed

lemma set_slice_to: "set (slice_to xs k) \<subseteq> set xs"
  by (auto simp: slice_to_def dest: in_set_takeD)

lemma sorted_sort_reverse: "sorted_wrt (\<lambda>a b. f b \<le> f a) (sort_reverse f xs)"
proof -
  have "sorted (map (\<lambda>x. - f x) (sort_key (\<lambda>x. - f x) xs))"
    by (rule sorted_sort_key)
  then show ?thesis
    by (simp add: sort_reverse_def sorted_map)
qed

lemma sorted_slice_to: "sorted_wrt P xs \<Longrightarrow> sorted_wrt P (slice_to xs k)"
  by (simp add: slice_to_def sorted_wrt_take)

lemma filter_sort_reverse:
  "filter (\<lambda>r. f r = c) (sort_reverse f xs) = filter (\<lambda>r. f r = c) xs"
  using sort_key_stable[of "\<lambda>x. - f x" "- c" xs] by (simp add: sort_reverse_def)

lemma subseq_filter_take: "subseq (filter P (take n xs)) (filter P xs)"
proof -
  have "filter P xs = filter P (take n xs) @ filter P (drop n xs)"
    by (metis append_take_drop_id filter_append)
  moreover have "subseq (filter P (take n xs)) (filter P (take n xs) @ filter P (drop n xs))"
    by (rule subseq_rev_drop_many) simp
  ultimately show ?thesis by simp
qed

lemma subseq_filter_slice_to: "subseq (filter P (slice_to xs k)) (filter P xs)"
  by (simp add: slice_to_def subseq_filter_take)

text \<open>
  A search that returns gives the stable descending sort of the scored documents, cut by
  the slice.
\<close>

lemma search_returns:
  assumes "search L s query top_k = (Inr rs, s')"
  shows "\<exists>results. rs = slice_to (sort_reverse r_score results) top_k
           \<and> subseq (map r_doc_id results) (dict_keys (documents s))
           \<and> (\<forall>r\<in>set results. scored L s query r)"
proof (cases "total_docs s = 0")
  case True
  then have "rs = []" using assms by (simp add: search_def)
  then have "rs = slice_to (sort_reverse r_score []) top_k"
    by (simp add: slice_to_def sort_reverse_def)
  then show ?thesis by fastforce
next
  case False
  let ?qts = "preprocess_text L query"
  obtain results s1 where
    loop: "search_loop L query ?qts (dict_keys (documents s)) [] s = (Inr results, s1)"
    and rs: "rs = slice_to (sort_reverse r_score results) top_k"
    using assms False
    by (cases "search_loop L query ?qts (dict_keys (documents s)) [] s")
       (auto simp: search_def Let_def split: sum.splits)
  from search_loop_results[OF loop] rs show ?thesis by auto
qed

lemma search_scored:
  assumes "search L s query top_k = (Inr rs, s')"
  shows "\<forall>r\<in>set rs. scored L s query r"
proof -
  obtain results where rs: "rs = slice_to (sort_reverse r_score results) top_k"
    and sc: "\<forall>r\<in>set results. scored L s query r"
    using search_returns[OF assms] by blast
  show ?thesis
    using sc rs set_slice_to[of "sort_reverse r_score results" top_k]
    by (auto simp: sort_reverse_def)
qed

lemma search_sorted:
  assumes "search L s query top_k = (Inr rs, s')"
  shows "sorted_wrt (\<lambda>a b. r_score b \<le> r_score a) rs"
proof -
  obtain results where rs: "rs = slice_to (sort_reverse r_score results) top_k"
    using search_returns[OF assms] by blast
  show ?thesis
    using rs by (simp add: sorted_slice_to sorted_sort_reverse)
qed

lemma search_ties:
  assumes "search L s query top_k = (Inr rs, s')"
  shows "subseq (map r_doc_id (filter (\<lambda>r. r_score r = c) rs)) (dict_keys (documents s))"
proof -
  obtain results where rs: "rs = slice_to (sort_reverse r_score results) top_k"
    and sub: "subseq (map r_doc_id results) (dict_keys (documents s))"
    using search_returns[OF assms] by blast
  have "subseq (filter (\<lambda>r. r_score r = c) rs) (filter (\<lambda>r. r_score r = c) results)"
    using subseq_filter_slice_to[of "\<lambda>r. r_score r = c" "sort_reverse r_score results" top_k]
    by (simp add: rs filter_sort_reverse)
  then have "subseq (filter (\<lambda>r. r_score r = c) rs) results"
    using subseq_filter_left subseq_order.order_trans by blast
  then have "subseq (map r_doc_id (filter (\<lambda>r. r_score r = c) rs)) (map r_doc_id results)"
    by (rule subseq_map)
  then show ?thesis
    using sub subseq_order.order_trans by blast
qed

text \<open>
  C6. Every result that \<open>search\<close> returns belongs to a stored document and carries the
  score \<open>0.7 * bm25_component + 0.3 * raw_tf_component\<close> of that document, where the BM25
  component sums \<open>idf * (tf * (k1 + 1)) / (tf + k1 * (1 - b + b * (dl / avg_doc_length)))\<close>
  over the query terms present in the document, with
  \<open>idf = ln ((total_docs - df + 0.5) / (df + 0.5) + 1.0)\<close>, \<open>k1 = 1.5\<close> and \<open>b = 0.75\<close>;
  the score of every result is positive and the results are in descending order of score.
\<close>

theorem search_scores:
  assumes "search L s query top_k = (Inr rs, s')"
  shows "(\<forall>r\<in>set rs. scored L s query r)
         \<and> sorted_wrt (\<lambda>a b. r_score b \<le> r_score a) rs"
  using search_scored[OF assms] search_sorted[OF assms] by simp

text \<open>
  C10. A second call of \<open>search\<close> with the same query and \<open>top_k\<close> has the outcome of the
  first, and the results of a search that share a score are in the order in which the
  Document Store holds their documents, which is the order of insertion.
\<close>

theorem search_deterministic_stable:
  "search L (snd (search L s query top_k)) query top_k = search L s query top_k
   \<and> (fst (search L s query top_k) = Inr rs \<longrightarrow>
        subseq (map r_doc_id (filter (\<lambda>r. r_score r = c) rs)) (dict_keys (documents s)))"
proof -
  have "fst (search L s query top_k) = Inr rs \<Longrightarrow>
        subseq (map r_doc_id (filter (\<lambda>r. r_score r = c) rs)) (dict_keys (documents s))"
    using search_ties[of L s query top_k rs "snd (search L s query top_k)" c]
    by (cases "search L s query top_k") simp
  then show ?thesis by (simp add: search_state)
qed

section \<open>Examples of searching\<close>

lemma search_loop_hit:
  assumes "dict_get (documents s) doc_id = Some doc"
    and "bm25_loop 1.5 0.75 doc_id (int (length (d_tokens doc))) (preprocess_text L query) 0 s
           = (Inr bm25, s)"
    and "tf_loop doc_id qts 0 s = (Inr tfs, s)"
    and "bm25 * 0.7 + real_of_int tfs * 0.3 > 0"
  shows "search_loop L query qts (doc_id # rest) results s
           = search_loop L query qts rest
               (results @ [\<lparr>r_doc_id = doc_id, r_score = bm25 * 0.7 + real_of_int tfs * 0.3,
                            r_title = d_title doc, r_snippet = d_content doc,
                            r_url = d_url doc\<rparr>]) s"
  using assms by (simp add: bm25_score_def Let_def)

lemma search_loop_raise:
  assumes "dict_get (documents s) doc_id = Some doc"
    and "bm25_loop 1.5 0.75 doc_id (int (length (d_tokens doc))) (preprocess_text L query) 0 s
           = (Inl e, s)"
  shows "search_loop L query qts (doc_id # rest) results s = (Inl e, s)"
  using assms by (simp add: bm25_score_def Let_def)


declare search_loop.simps(2) [simp del]

text \<open>
  On the engine that holds the one document \<open>d1\<close>, the query \<open>cat\<close> reaches the division
  by \<open>avg_doc_length\<close>, which is 0, and the query \<open>bird\<close> matches nothing.
\<close>

lemma example_search_cat:
  "search example_nltk example_state1 ''cat'' top_k = (Inl ZeroDivisionError, example_state1)"
proof -
  have ic: "index_count example_state1 ''cat'' ''d1'' = Some 2"
    by (simp add: example_state1_def index_count_def)
  have st: "df_spec example_state1 ''cat'' = 1" "total_docs example_state1 = 1"
    "avg_doc_length example_state1 = 0"
    by (simp_all add: example_state1_def df_spec_def dict_len_def)
  have doc: "dict_get (documents example_state1) ''d1''
      = Some \<lparr>d_title = ''cat'', d_content = ''cat dog...'', d_url = ''u1'',
              d_tokens = [''cat'', ''cat'', ''dog'']\<rparr>"
    and keys: "dict_keys (documents example_state1) = [''d1'']"
    by (simp_all add: example_state1_def dict_keys_def)
  have "bm25_loop 1.5 0.75 ''d1'' 3 [''cat''] 0 example_state1
          = (Inl ZeroDivisionError, example_state1)"
    by (simp add: bm25_loop_match[OF ic] st)
  then have "search_loop example_nltk ''cat'' [''cat''] [''d1''] [] example_state1
          = (Inl ZeroDivisionError, example_state1)"
    using search_loop_raise[OF doc, of example_nltk "''cat''" ZeroDivisionError]
    by (simp add: query_cat)
  then show ?thesis
    by (simp add: search_def st query_cat keys)
qed


text \<open>
  C5. The claim is that \<open>search\<close> never divides by zero. Here is what the code does after
  one \<open>add_document\<close> on a new instance, for a query that matches the document:
  \<open>total_docs\<close> is 1, \<open>avg_doc_length\<close> is 0, and the division in \<open>bm25_score\<close> raises.
\<close>

theorem search_divides_by_zero:
  "add_document example_nltk MiniGoogleSearch_init ''d1'' ''cat'' ''cat dog'' ''u1''
     = Inr example_state1
   \<and> total_docs example_state1 = 1
   \<and> search example_nltk example_state1 ''cat'' 10 = (Inl ZeroDivisionError, example_state1)"
  by (simp add: example_add1 example_search_cat) (simp add: example_state1_def)

text \<open>
  C7. The claim is that \<open>search\<close> with \<open>top_k \<le> 0\<close> returns the empty sequence and raises
  nothing. Here is what the code does after one \<open>add_document\<close> on a new instance, for a
  query that matches the document and \<open>top_k = 0\<close>: it raises.
\<close>

theorem search_top_k_zero_raises:
  "add_document example_nltk MiniGoogleSearch_init ''d1'' ''cat'' ''cat dog'' ''u1''
     = Inr example_state1
   \<and> search example_nltk example_state1 ''cat'' 0 = (Inl ZeroDivisionError, example_state1)"
  by (simp add: example_add1 example_search_cat)


text \<open>
  On the three documents with the average length assigned, the query \<open>cat\<close> scores
  \<open>d1\<close> and \<open>d2\<close> alike and \<open>d3\<close> higher.
\<close>

lemma ln_8_7_pos: "0 < ln (8 / 7 :: real)"
  by simp

lemma ranked_loop:
  "search_loop example_nltk ''cat'' [''cat''] [''d1'', ''d2'', ''d3''] [] example_ranked_state
     = (Inr [ranked_result ''d1'' (ln (8 / 7) * 0.7 + 0.3) ''dog...'' ''u1'',
             ranked_result ''d2'' (ln (8 / 7) * 0.7 + 0.3) ''dog...'' ''u2'',
             ranked_result ''d3'' (ln (8 / 7) + 0.6) ''cat...'' ''u3''],
        example_ranked_state)"
proof -
  let ?s = example_ranked_state
  let ?r1 = "ranked_result ''d1'' (ln (8 / 7) * 0.7 + 0.3) ''dog...'' ''u1''"
  let ?r2 = "ranked_result ''d2'' (ln (8 / 7) * 0.7 + 0.3) ''dog...'' ''u2''"
  let ?r3 = "ranked_result ''d3'' (ln (8 / 7) + 0.6) ''cat...'' ''u3''"
  have st: "total_docs ?s = 3" "avg_doc_length ?s = 2" "df_spec ?s ''cat'' = 3"
    by (simp_all add: example_ranked_state_def df_spec_def dict_len_def)
  have ic: "index_count ?s ''cat'' ''d1'' = Some 1" "index_count ?s ''cat'' ''d2'' = Some 1"
    "index_count ?s ''cat'' ''d3'' = Some 2"
    by (simp_all add: example_ranked_state_def index_count_def)
  have docs:
    "dict_get (documents ?s) ''d1''
       = Some \<lparr>d_title = ''cat'', d_content = ''dog...'', d_url = ''u1'',
               d_tokens = [''cat'', ''dog'']\<rparr>"
    "dict_get (documents ?s) ''d2''
       = Some \<lparr>d_title = ''cat'', d_content = ''dog...'', d_url = ''u2'',
               d_tokens = [''cat'', ''dog'']\<rparr>"
    "dict_get (documents ?s) ''d3''
       = Some \<lparr>d_title = ''cat'', d_content = ''cat...'', d_url = ''u3'',
               d_tokens = [''cat'', ''cat'']\<rparr>"
    by (simp_all add: example_ranked_state_def)
  have bm1: "bm25_loop 1.5 0.75 ''d1'' 2 [''cat''] 0 ?s = (Inr (ln (8 / 7)), ?s)"
    by (simp add: bm25_loop_match[OF ic(1)] st)
  have bm2: "bm25_loop 1.5 0.75 ''d2'' 2 [''cat''] 0 ?s = (Inr (ln (8 / 7)), ?s)"
    by (simp add: bm25_loop_match[OF ic(2)] st)
  have bm3: "bm25_loop 1.5 0.75 ''d3'' 2 [''cat''] 0 ?s = (Inr (ln (8 / 7) * (10 / 7)), ?s)"
    by (simp add: bm25_loop_match[OF ic(3)] st)
  have tf1: "tf_loop ''d1'' [''cat''] 0 ?s = (Inr 1, ?s)"
    by (simp add: tf_loop_match[OF ic(1)])
  have tf2: "tf_loop ''d2'' [''cat''] 0 ?s = (Inr 1, ?s)"
    by (simp add: tf_loop_match[OF ic(2)])
  have tf3: "tf_loop ''d3'' [''cat''] 0 ?s = (Inr 2, ?s)"
    by (simp add: tf_loop_match[OF ic(3)])
  have p1: "ln (8 / 7 :: real) * 0.7 + real_of_int 1 * 0.3 > 0"
    using ln_8_7_pos by linarith
  have p3: "ln (8 / 7 :: real) * (10 / 7) * 0.7 + real_of_int 2 * 0.3 > 0"
    using ln_8_7_pos by linarith
  have s1: "search_loop example_nltk ''cat'' [''cat''] [''d1'', ''d2'', ''d3''] [] ?s
     = search_loop example_nltk ''cat'' [''cat''] [''d2'', ''d3''] [?r1] ?s"
    using search_loop_hit[of ?s "''d1''" _ example_nltk "''cat''" "ln (8 / 7)" "[''cat'']" 1
        "[''d2'', ''d3'']" "[]", OF docs(1)] bm1 tf1 p1
    by (simp add: query_cat ranked_result_def)
  have s2: "search_loop example_nltk ''cat'' [''cat''] [''d2'', ''d3''] [?r1] ?s
     = search_loop example_nltk ''cat'' [''cat''] [''d3''] [?r1, ?r2] ?s"
    using search_loop_hit[of ?s "''d2''" _ example_nltk "''cat''" "ln (8 / 7)" "[''cat'']" 1
        "[''d3'']" "[?r1]", OF docs(2)] bm2 tf2 p1
    by (simp add: query_cat ranked_result_def)
  have s3: "search_loop example_nltk ''cat'' [''cat''] [''d3''] [?r1, ?r2] ?s
     = search_loop example_nltk ''cat'' [''cat''] [] [?r1, ?r2, ?r3] ?s"
    using search_loop_hit[of ?s "''d3''" _ example_nltk "''cat''" "ln (8 / 7) * (10 / 7)"
        "[''cat'']" 2 "[]" "[?r1, ?r2]", OF docs(3)] bm3 tf3 p3
    by (simp add: query_cat ranked_result_def)
  show ?thesis
    by (simp only: s1 s2 s3 search_loop.simps(1))
qed

lemma sort_reverse_3:
  assumes "f a < f c" and "f a = f b"
  shows "sort_reverse f [a, b, c] = [c, a, b]"
  using assms by (simp add: sort_reverse_def)

lemma ranked_search:
  "search example_nltk example_ranked_state ''cat'' top_k
     = (Inr (slice_to
               [ranked_result ''d3'' (ln (8 / 7) + 0.6) ''cat...'' ''u3'',
                ranked_result ''d1'' (ln (8 / 7) * 0.7 + 0.3) ''dog...'' ''u1'',
                ranked_result ''d2'' (ln (8 / 7) * 0.7 + 0.3) ''dog...'' ''u2''] top_k),
        example_ranked_state)"
proof -
  let ?r1 = "ranked_result ''d1'' (ln (8 / 7) * 0.7 + 0.3) ''dog...'' ''u1''"
  let ?r2 = "ranked_result ''d2'' (ln (8 / 7) * 0.7 + 0.3) ''dog...'' ''u2''"
  let ?r3 = "ranked_result ''d3'' (ln (8 / 7) + 0.6) ''cat...'' ''u3''"
  have keys: "dict_keys (documents example_ranked_state) = [''d1'', ''d2'', ''d3'']"
    and td: "total_docs example_ranked_state \<noteq> 0"
    by (simp_all add: example_ranked_state_def dict_keys_def)
  have lt: "ln (8 / 7 :: real) * 0.7 + 0.3 < ln (8 / 7) + 0.6"
    using ln_8_7_pos by linarith
  have "sort_reverse r_score [?r1, ?r2, ?r3] = [?r3, ?r1, ?r2]"
    using sort_reverse_3[of r_score ?r1 ?r3 ?r2] lt by (simp add: ranked_result_def)
  then show ?thesis
    using td by (simp add: search_def query_cat keys ranked_loop)
qed

text \<open>
  A negative \<open>top_k\<close> cuts the last results off, it does not empty the sequence.
\<close>

lemma example_search_negative_top_k:
  "search example_nltk example_ranked_state ''cat'' (- 1)
     = (Inr [ranked_result ''d3'' (ln (8 / 7) + 0.6) ''cat...'' ''u3'',
             ranked_result ''d1'' (ln (8 / 7) * 0.7 + 0.3) ''dog...'' ''u1''],
        example_ranked_state)"
  by (simp add: ranked_search slice_to_def)

theorem search_scores_witness:
  "search example_nltk example_ranked_state ''cat'' 2
     = (Inr [ranked_result ''d3'' (ln (8 / 7) + 0.6) ''cat...'' ''u3'',
             ranked_result ''d1'' (ln (8 / 7) * 0.7 + 0.3) ''dog...'' ''u1''],
        example_ranked_state)
   \<and> scored example_nltk example_ranked_state ''cat''
        (ranked_result ''d3'' (ln (8 / 7) + 0.6) ''cat...'' ''u3'')
   \<and> scored example_nltk example_ranked_state ''cat''
        (ranked_result ''d1'' (ln (8 / 7) * 0.7 + 0.3) ''dog...'' ''u1'')
   \<and> sorted_wrt (\<lambda>a b. r_score b \<le> r_score a)
        [ranked_result ''d3'' (ln (8 / 7) + 0.6) ''cat...'' ''u3'',
         ranked_result ''d1'' (ln (8 / 7) * 0.7 + 0.3) ''dog...'' ''u1'']"
proof -
  have h: "search example_nltk example_ranked_state ''cat'' 2
     = (Inr [ranked_result ''d3'' (ln (8 / 7) + 0.6) ''cat...'' ''u3'',
             ranked_result ''d1'' (ln (8 / 7) * 0.7 + 0.3) ''dog...'' ''u1''],
        example_ranked_state)"
    by (simp add: ranked_search slice_to_def)
  show ?thesis
    using h search_scores[OF h] by simp
qed

theorem search_deterministic_stable_witness:
  "fst (search example_nltk example_ranked_state ''cat'' 10)
     = Inr [ranked_result ''d3'' (ln (8 / 7) + 0.6) ''cat...'' ''u3'',
            ranked_result ''d1'' (ln (8 / 7) * 0.7 + 0.3) ''dog...'' ''u1'',
            ranked_result ''d2'' (ln (8 / 7) * 0.7 + 0.3) ''dog...'' ''u2'']
   \<and> subseq [''d1'', ''d2''] (dict_keys (documents example_ranked_state))
   \<and> search example_nltk (snd (search example_nltk example_ranked_state ''cat'' 10)) ''cat'' 10
       = search example_nltk example_ranked_state ''cat'' 10"
proof -
  let ?rs = "[ranked_result ''d3'' (ln (8 / 7) + 0.6) ''cat...'' ''u3'',
            ranked_result ''d1'' (ln (8 / 7) * 0.7 + 0.3) ''dog...'' ''u1'',
            ranked_result ''d2'' (ln (8 / 7) * 0.7 + 0.3) ''dog...'' ''u2'']"
  have h: "fst (search example_nltk example_ranked_state ''cat'' 10) = Inr ?rs"
    by (simp add: ranked_search slice_to_def)
  have ne: "ln (8 / 7 :: real) + 0.6 \<noteq> ln (8 / 7) * 0.7 + 0.3"
    using ln_8_7_pos by linarith
  have f: "map r_doc_id (filter (\<lambda>r. r_score r = ln (8 / 7) * 0.7 + 0.3) ?rs) = [''d1'', ''d2'']"
    using ne by (simp add: ranked_result_def)
  show ?thesis
    using h f
      search_deterministic_stable[of example_nltk example_ranked_state "''cat''" 10 ?rs
        "ln (8 / 7) * 0.7 + 0.3"]
    by simp
qed

section \<open>Searching after ingestion alone\<close>

text \<open>
  With \<open>avg_doc_length = 0\<close> the first query term present in a document ends the scoring
  with an error, so a search that returns has matched nothing.
\<close>

lemma bm25_loop_avg_zero:
  assumes "avg_doc_length s = 0"
    and "bm25_loop k1 b doc_id dl toks score s = (Inr r, s')"
  shows "matching_terms s doc_id toks = [] \<and> r = score"
  using assms(2)
proof (induction toks)
  case Nil
  then show ?case by (simp add: matching_terms_def)
next
  case (Cons token rest)
  show ?case
  proof (cases "index_count s token doc_id")
    case None
    then show ?thesis
      using Cons by (simp add: bm25_loop_skip matching_terms_def)
  next
    case (Some tf)
    then have False
      using Cons.prems assms(1) by (simp add: bm25_loop_match Let_def split: if_splits)
    then show ?thesis ..
  qed
qed

lemma search_loop_avg_zero:
  assumes "avg_doc_length s = 0"
    and "search_loop L query (preprocess_text L query) ids results s = (Inr rs, s')"
  shows "rs = results"
  using assms(2)
proof (induction ids)
  case Nil
  then show ?case by simp
next
  case (Cons doc_id rest)
  let ?qts = "preprocess_text L query"
  obtain r1 where r1: "bm25_score L s query doc_id 1.5 0.75 = (r1, s)"
    using bm25_score_state[of L s query doc_id "1.5" "0.75"]
    by (cases "bm25_score L s query doc_id 1.5 0.75") simp
  have r2: "tf_loop doc_id ?qts 0 s = (Inr (raw_tf_component s doc_id ?qts), s)"
    using tf_loop_value[of doc_id ?qts 0 s] by simp
  obtain bm25 where bm25: "r1 = Inr bm25"
    using Cons.prems r1 by (cases r1) (simp_all add: search_loop.simps(2))
  show ?case
  proof (cases "dict_get (documents s) doc_id")
    case None
    then have z: "bm25 = 0"
      using r1 bm25 by (simp add: bm25_score_def)
    have "\<not> 0 < real_of_int (raw_tf_component s doc_id ?qts) * 0.3"
      using Cons.prems r1 r2 bm25 z None
      by (auto simp: search_loop.simps(2) Let_def split: if_splits)
    then have "search_loop L query ?qts rest results s = (Inr rs, s')"
      using Cons.prems r1 r2 bm25 z by (simp add: search_loop.simps(2) Let_def)
    then show ?thesis by (rule Cons.IH)
  next
    case (Some doc)
    then have "bm25_loop 1.5 0.75 doc_id (int (length (d_tokens doc))) ?qts 0 s = (Inr bm25, s)"
      using r1 bm25 by (simp add: bm25_score_def Let_def)
    from bm25_loop_avg_zero[OF assms(1) this]
    have m: "matching_terms s doc_id ?qts = []" and z: "bm25 = 0" by simp_all
    have "raw_tf_component s doc_id ?qts = 0"
      using m by (simp add: raw_tf_component_def)
    then have "search_loop L query ?qts rest results s = (Inr rs, s')"
      using Cons.prems r1 r2 bm25 z by (simp add: search_loop.simps(2) Let_def)
    then show ?thesis by (rule Cons.IH)
  qed
qed

lemma search_avg_zero:
  assumes "avg_doc_length s = 0" and "search L s query top_k = (Inr rs, s')"
  shows "rs = []"
proof (cases "total_docs s = 0")
  case True
  then show ?thesis using assms(2) by (simp add: search_def)
next
  case False
  let ?qts = "preprocess_text L query"
  obtain results s1 where
    loop: "search_loop L query ?qts (dict_keys (documents s)) [] s = (Inr results, s1)"
    and rs: "rs = slice_to (sort_reverse r_score results) top_k"
    using assms(2) False
    by (cases "search_loop L query ?qts (dict_keys (documents s)) [] s")
       (auto simp: search_def Let_def split: sum.splits)
  have "results = []"
    using search_loop_avg_zero[OF assms(1) loop] .
  then show ?thesis
    using rs by (simp add: slice_to_def sort_reverse_def)
qed

text \<open>
  After \<open>add_document\<close> calls on a new instance, \<open>search\<close> returns no result at all:
  it returns the empty sequence or raises.
\<close>

lemma reachable_search_empty:
  assumes "add_documents L MiniGoogleSearch_init calls = Inr s"
    and "search L s query top_k = (Inr rs, s')"
  shows "rs = []"
proof -
  have "avg_doc_length s = 0"
    using add_documents_frame[OF assms(1)] by (simp add: MiniGoogleSearch_init_def)
  then show ?thesis using assms(2) by (rule search_avg_zero)
qed

section \<open>The Document Store and the Inverted Index\<close>

text \<open>
  The keys of the Document Store stay distinct, as those of a dictionary are: a key that
  is present keeps its place and a new key goes to the end.
\<close>

lemma dict_keys_set:
  "dict_keys (dict_set d k v) = (if dict_contains d k then dict_keys d else dict_keys d @ [k])"
  by (induction d) (auto simp: dict_keys_def split: if_splits)

lemma dict_contains_keys: "dict_contains d k \<longleftrightarrow> k \<in> set (dict_keys d)"
  by (induction d) (auto simp: dict_keys_def split: if_splits)

lemma add_document_keys:
  assumes "add_document L s doc_id title content url = Inr s'"
  shows "dict_keys (documents s')
           = (if doc_id \<in> set (dict_keys (documents s)) then dict_keys (documents s)
              else dict_keys (documents s) @ [doc_id])"
  using assms
  by (auto simp: add_document_def Let_def dict_keys_set dict_contains_keys split: sum.splits)

lemma add_documents_distinct:
  assumes "add_documents L s calls = Inr s'" and "distinct (dict_keys (documents s))"
  shows "distinct (dict_keys (documents s'))"
  using assms
proof (induction calls arbitrary: s)
  case Nil
  then show ?case by simp
next
  case (Cons c rest)
  obtain doc_id title content url where c: "c = (doc_id, title, content, url)"
    by (cases c) auto
  obtain s1 where s1: "add_document L s doc_id title content url = Inr s1"
    using add_document_returns by blast
  have "distinct (dict_keys (documents s1))"
    using add_document_keys[OF s1] Cons.prems(2) by (simp split: if_splits)
  moreover have "add_documents L s1 rest = Inr s'"
    using Cons.prems(1) c s1 by simp
  ultimately show ?case by (rule Cons.IH[rotated])
qed

lemma index_count_lookup: "index_count s t d = index_lookup (inverted_index s) t d"
  by (simp add: index_count_def index_lookup_def)

lemma dict_set_nonempty: "dict_set d k v \<noteq> []"
  by (cases d) (auto split: if_splits)

lemma index_add_lookup:
  assumes "index_add doc_id idx (token, count) = Inr idx'"
  shows "index_lookup idx' t d =
     (if t = token \<and> d = doc_id
      then Some ((case index_lookup idx t d of None \<Rightarrow> 0 | Some n \<Rightarrow> n) + count)
      else index_lookup idx t d)"
  using assms
  by (auto simp: index_add_def dd_getitem_def index_lookup_def dict_get_set dict_contains_get
        Let_def split: option.splits if_splits)

lemma index_add_entries:
  assumes "index_add doc_id idx (token, count) = Inr idx'"
    and "\<forall>t. dict_get idx t \<noteq> Some []"
  shows "dict_get idx' t \<noteq> Some []"
  using assms
  by (auto simp: index_add_def dd_getitem_def dict_get_set dict_contains_get dict_set_nonempty
        Let_def split: option.splits if_splits)

lemma index_add_all_entries:
  assumes "index_add_all doc_id idx tcs = Inr idx'"
    and "\<forall>t. dict_get idx t \<noteq> Some []"
  shows "\<forall>t. dict_get idx' t \<noteq> Some []"
  using assms
proof (induction tcs arbitrary: idx)
  case Nil
  then show ?case by simp
next
  case (Cons tc rest)
  obtain token count where tc: "tc = (token, count)" by (cases tc) auto
  obtain idx1 where idx1: "index_add doc_id idx (token, count) = Inr idx1"
    using index_add_returns by blast
  have "\<forall>t. dict_get idx1 t \<noteq> Some []"
    using index_add_entries[OF idx1 Cons.prems(2)] by blast
  moreover have "index_add_all doc_id idx1 rest = Inr idx'"
    using Cons.prems(1) tc idx1 by simp
  ultimately show ?case using Cons.IH by blast
qed

lemma dict_get_None_keys: "dict_get d k = None \<longleftrightarrow> k \<notin> set (dict_keys d)"
  by (induction d) (auto simp: dict_keys_def split: if_splits)

lemma index_add_all_lookup:
  assumes "index_add_all doc_id idx tcs = Inr idx'" and "distinct (dict_keys tcs)"
  shows "index_lookup idx' t d =
     (case (if d = doc_id then dict_get tcs t else None) of
        None \<Rightarrow> index_lookup idx t d
      | Some c \<Rightarrow> Some ((case index_lookup idx t d of None \<Rightarrow> 0 | Some n \<Rightarrow> n) + c))"
  using assms
proof (induction tcs arbitrary: idx)
  case Nil
  then show ?case by simp
next
  case (Cons tc rest)
  obtain token count where tc: "tc = (token, count)" by (cases tc) auto
  obtain idx1 where idx1: "index_add doc_id idx (token, count) = Inr idx1"
    using index_add_returns by blast
  have rest: "index_add_all doc_id idx1 rest = Inr idx'"
    using Cons.prems(1) tc idx1 by simp
  have d: "distinct (dict_keys rest)" and fresh: "dict_get rest token = None"
    using Cons.prems(2) tc by (simp_all add: dict_keys_def dict_get_None_keys)
  show ?case
    using Cons.IH[OF rest d] index_add_lookup[OF idx1, of t d] fresh tc
    by (auto split: option.splits if_splits)
qed

lemma counter_add_get:
  "dict_get (counter_add x c) t =
     (if x = t then Some ((case dict_get c t of None \<Rightarrow> 0 | Some n \<Rightarrow> n) + 1)
      else dict_get c t)"
  by (auto simp: counter_add_def dict_get_set split: option.splits)

lemma counter_fold_get:
  "dict_get (fold counter_add ts c) t =
     (if t \<in> set ts \<or> dict_get c t \<noteq> None
      then Some ((case dict_get c t of None \<Rightarrow> 0 | Some n \<Rightarrow> n) + int (count_list ts t))
      else None)"
proof (induction ts arbitrary: c)
  case Nil
  show ?case by (auto split: option.splits)
next
  case (Cons x ts)
  show ?case
    by (simp add: Cons.IH counter_add_get split: option.splits)
qed

lemma counter_fold_distinct:
  "distinct (dict_keys c) \<Longrightarrow> distinct (dict_keys (fold counter_add ts c))"
proof (induction ts arbitrary: c)
  case Nil
  then show ?case by simp
next
  case (Cons x ts)
  have "distinct (dict_keys (counter_add x c))"
    using Cons.prems by (simp add: counter_add_def dict_keys_set dict_contains_keys)
  then show ?case using Cons.IH by simp
qed

lemma Counter_get:
  "dict_get (Counter ts) t = (if t \<in> set ts then Some (int (count_list ts t)) else None)"
  by (simp add: Counter_def counter_fold_get)

lemma Counter_distinct: "distinct (dict_keys (Counter ts))"
proof -
  have "distinct (dict_keys ([] :: ('a, int) dict))"
    by (simp add: dict_keys_def)
  then show ?thesis
    unfolding Counter_def by (rule counter_fold_distinct)
qed

lemma add_document_unfold:
  assumes "add_document L s doc_id title content url = Inr s'"
  shows "\<exists>idx'.
           index_add_all doc_id (inverted_index s)
             (Counter (preprocess_text L (title @ '' '' @ content))) = Inr idx'
           \<and> inverted_index s' = idx'
           \<and> documents s' = dict_set (documents s) doc_id
                \<lparr>d_title = title, d_content = take 200 content @ ''...'', d_url = url,
                 d_tokens = preprocess_text L (title @ '' '' @ content)\<rparr>"
  using assms by (auto simp: add_document_def Let_def split: sum.splits)

lemma add_document_exact:
  assumes "index_exact s" and "dict_get (documents s) doc_id = None"
    and "add_document L s doc_id title content url = Inr s'"
  shows "index_exact s'"
proof -
  let ?tokens = "preprocess_text L (title @ '' '' @ content)"
  let ?doc = "\<lparr>d_title = title, d_content = take 200 content @ ''...'', d_url = url,
               d_tokens = ?tokens\<rparr>"
  obtain idx' where
    loop: "index_add_all doc_id (inverted_index s) (Counter ?tokens) = Inr idx'"
    and idx: "inverted_index s' = idx'"
    and docs: "documents s' = dict_set (documents s) doc_id ?doc"
    using add_document_unfold[OF assms(3)] by blast
  have old: "\<And>t. index_lookup (inverted_index s) t doc_id = None"
    using assms(1,2) by (simp add: index_exact_def)
  have 1: "\<forall>t. dict_get (inverted_index s') t \<noteq> Some []"
    using index_add_all_entries[OF loop] assms(1) idx by (simp add: index_exact_def)
  have 2: "index_lookup (inverted_index s') t d =
           (case dict_get (documents s') d of
              None \<Rightarrow> None
            | Some doc \<Rightarrow>
                if t \<in> set (d_tokens doc) then Some (int (count_list (d_tokens doc) t))
                else None)" for t d
  proof (cases "d = doc_id")
    case True
    then show ?thesis
      using index_add_all_lookup[OF loop Counter_distinct, of t d] old[of t]
      by (simp add: idx docs dict_get_set Counter_get)
  next
    case False
    then show ?thesis
      using index_add_all_lookup[OF loop Counter_distinct, of t d] assms(1)
      by (simp add: idx docs dict_get_set index_exact_def)
  qed
  show ?thesis
    using 1 2 by (simp add: index_exact_def)
qed

lemma add_documents_exact:
  assumes "index_exact s" and "distinct (map fst calls)"
    and "\<forall>c\<in>set calls. dict_get (documents s) (fst c) = None"
    and "add_documents L s calls = Inr s'"
  shows "index_exact s'"
  using assms
proof (induction calls arbitrary: s)
  case Nil
  then show ?case by simp
next
  case (Cons c rest)
  obtain doc_id title content url where c: "c = (doc_id, title, content, url)"
    by (cases c) auto
  obtain s1 where s1: "add_document L s doc_id title content url = Inr s1"
    using add_document_returns by blast
  have fresh: "dict_get (documents s) doc_id = None"
    using Cons.prems(3) c by simp
  have e1: "index_exact s1"
    using add_document_exact[OF Cons.prems(1) fresh s1] .
  have docs: "documents s1 = dict_set (documents s) doc_id
                \<lparr>d_title = title, d_content = take 200 content @ ''...'', d_url = url,
                 d_tokens = preprocess_text L (title @ '' '' @ content)\<rparr>"
    using add_document_unfold[OF s1] by blast
  have f1: "\<forall>c\<in>set rest. dict_get (documents s1) (fst c) = None"
    using Cons.prems(2,3) c by (auto simp: docs dict_get_set)
  have d1: "distinct (map fst rest)"
    using Cons.prems(2) by simp
  have "add_documents L s1 rest = Inr s'"
    using Cons.prems(4) c s1 by simp
  from Cons.IH[OF e1 d1 f1 this] show ?case .
qed

lemma index_exact_consistent:
  assumes "index_exact s"
  shows "index_consistent s"
proof -
  have nonempty: "\<And>t. dict_get (inverted_index s) t \<noteq> Some []"
    and look: "\<And>t d. index_count s t d =
           (case dict_get (documents s) d of
              None \<Rightarrow> None
            | Some doc \<Rightarrow>
                if t \<in> set (d_tokens doc) then Some (int (count_list (d_tokens doc) t))
                else None)"
    using assms by (simp_all add: index_exact_def index_count_lookup)
  have b: "\<exists>doc. dict_get (documents s) d = Some doc \<and> t \<in> set (d_tokens doc)
              \<and> n = int (count_list (d_tokens doc) t)"
    if "index_count s t d = Some n" for t d n
    using that[unfolded look] by (auto split: option.splits if_splits)
  have pos: "0 < n" if "index_count s t d = Some n" for t d n
    using b[OF that] count_list_0_iff[of _ t] by fastforce
  have a: "dict_contains (inverted_index s) t
            \<longleftrightarrow> (\<exists>d n. index_count s t d = Some n \<and> 0 < n)" for t
  proof
    assume "dict_contains (inverted_index s) t"
    then obtain e where e: "dict_get (inverted_index s) t = Some e"
      by (auto simp: dict_contains_get)
    then obtain d n rest where "e = (d, n) # rest"
      using nonempty[of t] by (cases e) auto
    then have "index_count s t d = Some n"
      using e by (simp add: index_count_def)
    then show "\<exists>d n. index_count s t d = Some n \<and> 0 < n"
      using pos by blast
  next
    assume "\<exists>d n. index_count s t d = Some n \<and> 0 < n"
    then show "dict_contains (inverted_index s) t"
      by (auto simp: index_count_def dict_contains_get split: option.splits)
  qed
  show ?thesis
    using a b by (fastforce simp: index_consistent_def)
qed

text \<open>
  When no id is added twice, the Inverted Index satisfies the invariant of the
  specification after the calls.
\<close>

lemma add_once_index_consistent:
  assumes "distinct (map fst calls)"
    and "add_documents L MiniGoogleSearch_init calls = Inr s"
  shows "index_consistent s"
proof -
  have "index_exact MiniGoogleSearch_init"
    by (simp add: index_exact_def MiniGoogleSearch_init_def index_lookup_def)
  moreover have "\<forall>c\<in>set calls. dict_get (documents MiniGoogleSearch_init) (fst c) = None"
    by (simp add: MiniGoogleSearch_init_def)
  ultimately have "index_exact s"
    using add_documents_exact[OF _ assms(1) _ assms(2)] by blast
  then show ?thesis by (rule index_exact_consistent)
qed

end
